theory Spec2Isabelle
  imports
    Complex_Main
    "HOL-Library.AList"
    "HOL-Library.Char_ord"
    "HOL-Library.List_Lexorder"
    "HOL-Library.Multiset"
begin

section \<open>Python values, errors and the standard library\<close>

text \<open>
  The aggregator of \<^verbatim>\<open>video_aggregator.py\<close> reads the field \<^verbatim>\<open>timestamp\<close> of each event
  without checking its type, and catches \<^verbatim>\<open>ValueError\<close> and \<^verbatim>\<open>TypeError\<close> around the parse.
  The value of that field is therefore modelled as a Python value of one of four types.
  A \<^verbatim>\<open>str\<close> is a list of 8-bit characters (its UTF-8 encoding, whose lexicographic byte order
  is Python's code point order).
\<close>

datatype py_value = PyStr string | PyBytes string | PyInt int | PyNone

datatype py_error = ValueError | TypeError | AttributeError | ZeroDivisionError

text \<open>
  \<^verbatim>\<open>datetime.datetime\<close>: the calendar fields and \<^verbatim>\<open>tzinfo\<close>, which is \<^verbatim>\<open>None\<close> for a naive
  value and a fixed offset from UTC (here in microseconds) for an aware one.
\<close>

record datetime =
  year :: int
  month :: int
  day :: int
  hour :: int
  minute :: int
  second :: int
  microsecond :: int
  tzinfo :: "int option"

definition is_leap :: "int \<Rightarrow> bool" where
  "is_leap y = (y mod 4 = 0 \<and> (y mod 100 \<noteq> 0 \<or> y mod 400 = 0))"

definition days_before_year :: "int \<Rightarrow> int" where
  "days_before_year y = (let y1 = y - 1 in y1 * 365 + y1 div 4 - y1 div 100 + y1 div 400)"

definition DAYS_IN_MONTH :: "int list" where
  "DAYS_IN_MONTH = [31, 28, 31, 30, 31, 30, 31, 31, 30, 31, 30, 31]"

definition days_in_month :: "int \<Rightarrow> int \<Rightarrow> int" where
  "days_in_month y m = (if m = 2 \<and> is_leap y then 29 else DAYS_IN_MONTH ! nat (m - 1))"

definition days_before_month :: "int \<Rightarrow> int \<Rightarrow> int" where
  "days_before_month y m =
     sum_list (take (nat (m - 1)) DAYS_IN_MONTH) + (if 2 < m \<and> is_leap y then 1 else 0)"

definition toordinal :: "datetime \<Rightarrow> int" where
  "toordinal d = days_before_year (year d) + days_before_month (year d) (month d) + day d"

text \<open>
  \<^verbatim>\<open>datetime.__sub__\<close>: a \<^verbatim>\<open>timedelta\<close>, here its length in microseconds. Two naive values
  are subtracted field by field, two aware values as instants, and a naive and an aware value
  raise \<^verbatim>\<open>TypeError\<close>.
\<close>

definition wall_microseconds :: "datetime \<Rightarrow> int" where
  "wall_microseconds d =
     (toordinal d * 86400 + (second d + minute d * 60 + hour d * 3600)) * 1000000 + microsecond d"

definition datetime_sub :: "datetime \<Rightarrow> datetime \<Rightarrow> py_error + int" where
  "datetime_sub a b =
     (let base = wall_microseconds a - wall_microseconds b in
      case (tzinfo a, tzinfo b) of
        (None, None) \<Rightarrow> Inr base
      | (Some myoff, Some otoff) \<Rightarrow> Inr (base + otoff - myoff)
      | _ \<Rightarrow> Inl TypeError)"

text \<open>
  \<^verbatim>\<open>timedelta.total_seconds()\<close> returns a float; the model keeps the exact quotient, which is
  the float whenever the float is exact.
\<close>

definition total_seconds :: "int \<Rightarrow> rat" where
  "total_seconds us = of_int us / 1000000"

subsection \<open>A model of \<^verbatim>\<open>datetime.fromisoformat\<close>\<close>

text \<open>
  The aggregator below takes the parser as a parameter \<open>fromiso\<close> (\<open>None\<close> is
  \<^verbatim>\<open>ValueError\<close>), since the strings the library accepts differ between Python versions.
  For evaluation, \<open>fromisoformat\<close> models the library on the strings
  \<^verbatim>\<open>YYYY-MM-DD*HH:MM:SS[.fff[fff]][+HH:MM]\<close> (\<^verbatim>\<open>*\<close> any one character, sign \<^verbatim>\<open>+\<close> or \<^verbatim>\<open>-\<close>),
  which every version from 3.7 reads the same way, and rejects every other string.
\<close>

definition digit_val :: "char \<Rightarrow> int option" where
  "digit_val c =
     (if CHR ''0'' \<le> c \<and> c \<le> CHR ''9'' then Some (int (of_char c) - 48) else None)"

fun digits_val :: "int \<Rightarrow> string \<Rightarrow> int option" where
  "digits_val acc [] = Some acc"
| "digits_val acc (c # cs) =
     (case digit_val c of None \<Rightarrow> None | Some d \<Rightarrow> digits_val (acc * 10 + d) cs)"

definition parse_int :: "string \<Rightarrow> int option" where
  "parse_int s = (if s = [] then None else digits_val 0 s)"

definition parse_date :: "string \<Rightarrow> (int \<times> int \<times> int) option" where
  "parse_date s =
     (if length s \<noteq> 10 \<or> s ! 4 \<noteq> CHR ''-'' \<or> s ! 7 \<noteq> CHR ''-'' then None
      else case (parse_int (take 4 s), parse_int (take 2 (drop 5 s)), parse_int (drop 8 s)) of
        (Some y, Some m, Some d) \<Rightarrow>
          if 1 \<le> y \<and> y \<le> 9999 \<and> 1 \<le> m \<and> m \<le> 12 \<and> 1 \<le> d \<and> d \<le> days_in_month y m
          then Some (y, m, d) else None
      | _ \<Rightarrow> None)"

definition parse_hh_mm :: "string \<Rightarrow> (int \<times> int) option" where
  "parse_hh_mm s =
     (if length s \<noteq> 5 \<or> s ! 2 \<noteq> CHR '':'' then None
      else case (parse_int (take 2 s), parse_int (drop 3 s)) of
        (Some h, Some m) \<Rightarrow> if h \<le> 23 \<and> m \<le> 59 then Some (h, m) else None
      | _ \<Rightarrow> None)"

definition parse_hh_mm_ss :: "string \<Rightarrow> (int \<times> int \<times> int) option" where
  "parse_hh_mm_ss s =
     (if length s \<noteq> 8 \<or> s ! 5 \<noteq> CHR '':'' then None
      else case (parse_hh_mm (take 5 s), parse_int (drop 6 s)) of
        (Some (h, m), Some sec) \<Rightarrow> if sec \<le> 59 then Some (h, m, sec) else None
      | _ \<Rightarrow> None)"

definition parse_fraction :: "string \<Rightarrow> int option" where
  "parse_fraction s =
     (if s = [] then Some 0
      else if hd s \<noteq> CHR ''.'' then None
      else if length s = 4 then map_option (\<lambda>n. n * 1000) (parse_int (tl s))
      else if length s = 7 then parse_int (tl s)
      else None)"

definition is_sign :: "char \<Rightarrow> bool" where
  "is_sign c = (c = CHR ''+'' \<or> c = CHR ''-'')"

definition parse_offset :: "string \<Rightarrow> int option option" where
  "parse_offset s =
     (if s = [] then Some None
      else if is_sign (hd s) then
        (case parse_hh_mm (tl s) of
           None \<Rightarrow> None
         | Some (h, m) \<Rightarrow>
             Some (Some ((if hd s = CHR ''-'' then - 1 else 1) * ((h * 3600 + m * 60) * 1000000))))
      else None)"

definition fromisoformat :: "string \<Rightarrow> datetime option" where
  "fromisoformat s =
     (if length s < 19 then None
      else
        let tstr = drop 11 s;
            clock = takeWhile (\<lambda>c. \<not> is_sign c) tstr;
            zone = dropWhile (\<lambda>c. \<not> is_sign c) tstr
        in case (parse_date (take 10 s), parse_hh_mm_ss (take 8 clock),
                 parse_fraction (drop 8 clock), parse_offset zone) of
             (Some (y, mo, d), Some (h, mi, sec), Some us, Some tz) \<Rightarrow>
               Some \<lparr>year = y, month = mo, day = d, hour = h, minute = mi, second = sec,
                     microsecond = us, tzinfo = tz\<rparr>
           | _ \<Rightarrow> None)"

text \<open>\<^verbatim>\<open>str.strip('Z')\<close> removes every leading and every trailing \<^verbatim>\<open>Z\<close>.\<close>

definition strip_Z :: "string \<Rightarrow> string" where
  "strip_Z s = rev (dropWhile (\<lambda>c. c = CHR ''Z'') (rev (dropWhile (\<lambda>c. c = CHR ''Z'') s)))"

section \<open>The data model\<close>

record raw_event =
  user_id :: string
  session_id :: string
  event_type :: string
  timestamp :: py_value

record session_aggregate =
  total_buffer_duration_seconds :: rat
  buffer_events_count :: int

text \<open>
  A Python \<^verbatim>\<open>dict\<close> keeps its keys in insertion order: the mapping from session ids to
  aggregates is an association list, updated in place or extended at the end.
\<close>

type_synonym aggregated = "(string \<times> session_aggregate) list"

record summary_metrics =
  total_sessions_with_buffering :: int
  total_buffer_time_seconds :: rat
  total_buffer_events :: int
  average_buffer_time_per_session_seconds :: rat
  average_buffer_time_per_event_seconds :: rat

text \<open>The two messages the aggregator prints, by kind and arguments.\<close>

datatype diagnostic =
  InvalidTimestamp py_value py_error
| UnmatchedBufferEnd string

record agg_state =
  session_states :: "string \<rightharpoonup> datetime"
  aggregated_data :: aggregated
  printed :: "diagnostic list"

section \<open>The sample data\<close>

definition mk_event :: "string \<Rightarrow> string \<Rightarrow> string \<Rightarrow> py_value \<Rightarrow> raw_event" where
  "mk_event u s k t = \<lparr>user_id = u, session_id = s, event_type = k, timestamp = t\<rparr>"

definition fetch_raw_events_from_db :: "raw_event list" where
  "fetch_raw_events_from_db =
     [mk_event ''user_1'' ''session_A'' ''buffer_start'' (PyStr ''2023-10-27T10:00:15Z''),
      mk_event ''user_2'' ''session_B'' ''buffer_start'' (PyStr ''2023-10-27T10:01:05Z''),
      mk_event ''user_1'' ''session_A'' ''buffer_end'' (PyStr ''2023-10-27T10:00:18Z''),
      mk_event ''user_3'' ''session_C'' ''buffer_start'' (PyStr ''2023-10-27T10:02:30Z''),
      mk_event ''user_2'' ''session_B'' ''buffer_end'' (PyStr ''2023-10-27T10:01:10Z''),
      mk_event ''user_1'' ''session_A'' ''buffer_start'' (PyStr ''2023-10-27T10:05:00Z''),
      mk_event ''user_3'' ''session_C'' ''buffer_end'' (PyStr ''2023-10-27T10:02:35Z''),
      mk_event ''user_1'' ''session_A'' ''buffer_end'' (PyStr ''2023-10-27T10:05:02Z'')]"

section \<open>The interval aggregator\<close>

text \<open>
  \<^verbatim>\<open>sorted(raw_events, key=lambda x: x['timestamp'])\<close> compares the raw field values with
  \<^verbatim>\<open><\<close> and is stable. A list of fewer than two events is returned without a comparison.
  Otherwise every element is compared with another one, and \<^verbatim>\<open><\<close> raises \<^verbatim>\<open>TypeError\<close>
  between values of two different types of the model and between two \<^verbatim>\<open>None\<close>.
\<close>

fun is_str :: "py_value \<Rightarrow> bool" where
  "is_str (PyStr s) = True"
| "is_str v = False"

fun is_bytes :: "py_value \<Rightarrow> bool" where
  "is_bytes (PyBytes s) = True"
| "is_bytes v = False"

fun is_int :: "py_value \<Rightarrow> bool" where
  "is_int (PyInt n) = True"
| "is_int v = False"

fun chars_of :: "py_value \<Rightarrow> string" where
  "chars_of (PyStr s) = s"
| "chars_of (PyBytes s) = s"
| "chars_of v = []"

fun int_of :: "py_value \<Rightarrow> int" where
  "int_of (PyInt n) = n"
| "int_of v = 0"

definition sorted_events :: "raw_event list \<Rightarrow> py_error + raw_event list" where
  "sorted_events raw_events =
     (if length raw_events < 2 then Inr raw_events
      else if list_all (\<lambda>x. is_str (timestamp x)) raw_events
        then Inr (sort_key (\<lambda>x. chars_of (timestamp x)) raw_events)
      else if list_all (\<lambda>x. is_bytes (timestamp x)) raw_events
        then Inr (sort_key (\<lambda>x. chars_of (timestamp x)) raw_events)
      else if list_all (\<lambda>x. is_int (timestamp x)) raw_events
        then Inr (sort_key (\<lambda>x. int_of (timestamp x)) raw_events)
      else Inl TypeError)"

text \<open>
  The body of the \<^verbatim>\<open>try\<close>: \<^verbatim>\<open>event['timestamp'].strip('Z')\<close> and the parse. \<^verbatim>\<open>bytes.strip\<close>
  refuses a \<^verbatim>\<open>str\<close> argument with \<^verbatim>\<open>TypeError\<close>; an \<^verbatim>\<open>int\<close> and \<^verbatim>\<open>None\<close> have no
  attribute \<^verbatim>\<open>strip\<close>.
\<close>

fun parse_timestamp :: "(string \<Rightarrow> datetime option) \<Rightarrow> py_value \<Rightarrow> py_error + datetime" where
  "parse_timestamp fromiso (PyStr s) =
     (case fromiso (strip_Z s) of None \<Rightarrow> Inl ValueError | Some t \<Rightarrow> Inr t)"
| "parse_timestamp fromiso (PyBytes b) = Inl TypeError"
| "parse_timestamp fromiso (PyInt n) = Inl AttributeError"
| "parse_timestamp fromiso PyNone = Inl AttributeError"

text \<open>
  \<^verbatim>\<open>aggregated_data[session_id]\<close> on the \<^verbatim>\<open>defaultdict\<close>: a missing session reads as
  duration 0 and count 0 (and is entered by the assignment that follows).
\<close>

definition aggregate_of :: "aggregated \<Rightarrow> string \<Rightarrow> session_aggregate" where
  "aggregate_of agg sid =
     (case map_of agg sid of
        None \<Rightarrow> \<lparr>total_buffer_duration_seconds = 0, buffer_events_count = 0\<rparr>
      | Some m \<Rightarrow> m)"

definition add_interval :: "string \<Rightarrow> rat \<Rightarrow> aggregated \<Rightarrow> aggregated" where
  "add_interval sid buffer_duration agg =
     AList.update sid
       \<lparr>total_buffer_duration_seconds =
          total_buffer_duration_seconds (aggregate_of agg sid) + buffer_duration,
        buffer_events_count = buffer_events_count (aggregate_of agg sid) + 1\<rparr> agg"

text \<open>One iteration of the loop over the sorted events.\<close>

definition process_event ::
  "(string \<Rightarrow> datetime option) \<Rightarrow> agg_state \<Rightarrow> raw_event \<Rightarrow> py_error + agg_state" where
  "process_event fromiso st event =
     (case parse_timestamp fromiso (timestamp event) of
        Inl e \<Rightarrow>
          if e = ValueError \<or> e = TypeError
          then Inr (st\<lparr>printed := printed st @ [InvalidTimestamp (timestamp event) e]\<rparr>)
          else Inl e
      | Inr t \<Rightarrow>
          if event_type event = ''buffer_start''
          then Inr (st\<lparr>session_states := (session_states st)(session_id event \<mapsto> t)\<rparr>)
          else if event_type event = ''buffer_end'' then
            (case session_states st (session_id event) of
               Some buffer_start_time \<Rightarrow>
                 (case datetime_sub t buffer_start_time of
                    Inl e \<Rightarrow> Inl e
                  | Inr delta \<Rightarrow>
                      Inr (st\<lparr>aggregated_data :=
                                 add_interval (session_id event) (total_seconds delta)
                                   (aggregated_data st),
                               session_states := (session_states st)(session_id event := None)\<rparr>))
             | None \<Rightarrow>
                 Inr (st\<lparr>printed := printed st @ [UnmatchedBufferEnd (session_id event)]\<rparr>))
          else Inr st)"

fun process_events ::
  "(string \<Rightarrow> datetime option) \<Rightarrow> agg_state \<Rightarrow> raw_event list \<Rightarrow> py_error + agg_state" where
  "process_events fromiso st [] = Inr st"
| "process_events fromiso st (event # events) =
     (case process_event fromiso st event of
        Inl e \<Rightarrow> Inl e
      | Inr st' \<Rightarrow> process_events fromiso st' events)"

definition initial_state :: agg_state where
  "initial_state = \<lparr>session_states = Map.empty, aggregated_data = [], printed = []\<rparr>"

definition run_aggregation ::
  "(string \<Rightarrow> datetime option) \<Rightarrow> raw_event list \<Rightarrow> py_error + agg_state" where
  "run_aggregation fromiso raw_events =
     (case sorted_events raw_events of
        Inl e \<Rightarrow> Inl e
      | Inr evs \<Rightarrow> process_events fromiso initial_state evs)"

definition aggregate_buffering_data ::
  "(string \<Rightarrow> datetime option) \<Rightarrow> raw_event list \<Rightarrow> py_error + aggregated" where
  "aggregate_buffering_data fromiso raw_events =
     (case run_aggregation fromiso raw_events of
        Inl e \<Rightarrow> Inl e
      | Inr st \<Rightarrow> Inr (aggregated_data st))"

section \<open>The summary reducer\<close>

text \<open>Python's \<^verbatim>\<open>/\<close> raises \<^verbatim>\<open>ZeroDivisionError\<close> on a zero divisor.\<close>

definition py_truediv :: "rat \<Rightarrow> int \<Rightarrow> py_error + rat" where
  "py_truediv a b = (if b = 0 then Inl ZeroDivisionError else Inr (a / of_int b))"

definition generate_summary_metrics :: "aggregated \<Rightarrow> py_error + summary_metrics" where
  "generate_summary_metrics agg =
     (let sessions_with_buffering = int (length agg);
          total_buffer_time_all_sessions =
            fold (\<lambda>(sid, metrics) acc. acc + total_buffer_duration_seconds metrics) agg 0;
          total_buffer_events_all_sessions =
            fold (\<lambda>(sid, metrics) acc. acc + buffer_events_count metrics) agg 0
      in case (if 0 < sessions_with_buffering
               then py_truediv total_buffer_time_all_sessions sessions_with_buffering
               else Inr 0) of
           Inl e \<Rightarrow> Inl e
         | Inr avg_buffer_time_per_session \<Rightarrow>
             (case (if 0 < total_buffer_events_all_sessions
                    then py_truediv total_buffer_time_all_sessions
                           total_buffer_events_all_sessions
                    else Inr 0) of
                Inl e \<Rightarrow> Inl e
              | Inr avg_buffer_time_per_event \<Rightarrow>
                  Inr \<lparr>total_sessions_with_buffering = sessions_with_buffering,
                       total_buffer_time_seconds = total_buffer_time_all_sessions,
                       total_buffer_events = total_buffer_events_all_sessions,
                       average_buffer_time_per_session_seconds = avg_buffer_time_per_session,
                       average_buffer_time_per_event_seconds = avg_buffer_time_per_event\<rparr>))"

section \<open>Paired intervals, as the specification describes them\<close>

text \<open>
  The specification speaks of the strictly paired intervals of a session: a start and the
  end that follows it, orphan events counting for nothing. The definitions of this section
  follow those words, not the loop, and the theorems below compare the two. A session's
  marks are its events that parse and are a start or an end, in processing order; a paired
  interval is a start immediately followed, among the session's marks, by an end.
\<close>

datatype mark = BufferStart datetime | BufferEnd datetime

definition mark_of :: "(string \<Rightarrow> datetime option) \<Rightarrow> raw_event \<Rightarrow> mark option" where
  "mark_of fromiso x =
     (case parse_timestamp fromiso (timestamp x) of
        Inl e \<Rightarrow> None
      | Inr t \<Rightarrow>
          if event_type x = ''buffer_start'' then Some (BufferStart t)
          else if event_type x = ''buffer_end'' then Some (BufferEnd t)
          else None)"

definition session_events :: "string \<Rightarrow> raw_event list \<Rightarrow> raw_event list" where
  "session_events sid evs = filter (\<lambda>x. session_id x = sid) evs"

definition session_marks ::
  "(string \<Rightarrow> datetime option) \<Rightarrow> string \<Rightarrow> raw_event list \<Rightarrow> mark list" where
  "session_marks fromiso sid evs = List.map_filter (mark_of fromiso) (session_events sid evs)"

fun paired_intervals :: "mark list \<Rightarrow> (datetime \<times> datetime) list" where
  "paired_intervals (BufferStart a # BufferEnd b # ms) = (a, b) # paired_intervals ms"
| "paired_intervals (m # ms) = paired_intervals ms"
| "paired_intervals [] = []"

text \<open>A start still open when a stretch of events begins stands before its marks.\<close>

definition pending_mark :: "datetime option \<Rightarrow> mark list" where
  "pending_mark p = (case p of None \<Rightarrow> [] | Some t \<Rightarrow> [BufferStart t])"

text \<open>The entry of a session that had entry \<open>m\<close> and completes intervals of lengths \<open>ds\<close>.\<close>

definition accumulated :: "session_aggregate option \<Rightarrow> int list \<Rightarrow> session_aggregate option" where
  "accumulated m ds =
     (if ds = [] then m
      else Some \<lparr>total_buffer_duration_seconds =
                   (case m of None \<Rightarrow> 0 | Some a \<Rightarrow> total_buffer_duration_seconds a)
                   + sum_list (map total_seconds ds),
                 buffer_events_count =
                   (case m of None \<Rightarrow> 0 | Some a \<Rightarrow> buffer_events_count a)
                   + int (length ds)\<rparr>)"

text \<open>Two events that agree but for the user.\<close>

definition same_but_user :: "raw_event \<Rightarrow> raw_event \<Rightarrow> bool" where
  "same_but_user a b =
     (session_id a = session_id b \<and> event_type a = event_type b \<and> timestamp a = timestamp b)"

text \<open>An event with its user forgotten.\<close>

definition anonymous :: "raw_event \<Rightarrow> raw_event" where
  "anonymous x = x\<lparr>user_id := []\<rparr>"

text \<open>
  The two ways a run raises: an event whose timestamp raises something other than the two
  caught errors, and a paired interval whose two ends cannot be subtracted.
\<close>

definition raises_on_parse :: "(string \<Rightarrow> datetime option) \<Rightarrow> raw_event \<Rightarrow> bool" where
  "raises_on_parse fromiso x =
     (case parse_timestamp fromiso (timestamp x) of
        Inl e \<Rightarrow> e \<noteq> ValueError \<and> e \<noteq> TypeError
      | Inr t \<Rightarrow> False)"

definition runs :: "(string \<Rightarrow> datetime option) \<Rightarrow> raw_event list \<Rightarrow> bool" where
  "runs fromiso evs =
     (list_all (\<lambda>x. \<not> raises_on_parse fromiso x) evs
      \<and> (\<forall>sid. list_all (\<lambda>(a, b). \<not> isl (datetime_sub b a))
                  (paired_intervals (session_marks fromiso sid evs))))"

text \<open>The state with a start of session \<open>sid\<close> open at \<open>t\<close>.\<close>

definition open_start :: "string \<Rightarrow> datetime \<Rightarrow> agg_state \<Rightarrow> agg_state" where
  "open_start sid t st = st\<lparr>session_states := (session_states st)(sid \<mapsto> t)\<rparr>"


section \<open>Further sample inputs\<close>

text \<open>A start and, half a second later, its end, written with and without a fraction.\<close>

definition fraction_events :: "raw_event list" where
  "fraction_events =
     [mk_event ''user_1'' ''session_A'' ''buffer_start'' (PyStr ''2023-10-27T10:00:15Z''),
      mk_event ''user_1'' ''session_A'' ''buffer_end'' (PyStr ''2023-10-27T10:00:15.500Z'')]"

text \<open>An end whose string sorts after its start's and whose time is half a second before.\<close>

definition skewed_events :: "raw_event list" where
  "skewed_events =
     [mk_event ''user_1'' ''session_A'' ''buffer_start'' (PyStr ''2023-10-27T10:00:15.500Z''),
      mk_event ''user_1'' ''session_A'' ''buffer_end'' (PyStr ''2023-10-27T10:00:15Z'')]"

text \<open>An event whose timestamp is \<^verbatim>\<open>None\<close>.\<close>

definition null_timestamp_events :: "raw_event list" where
  "null_timestamp_events = [mk_event ''user_1'' ''session_A'' ''buffer_start'' PyNone]"

text \<open>A start without a zone offset and its end with one.\<close>

definition mixed_zone_events :: "raw_event list" where
  "mixed_zone_events =
     [mk_event ''user_1'' ''session_A'' ''buffer_start'' (PyStr ''2023-10-27T10:00:15Z''),
      mk_event ''user_1'' ''session_A'' ''buffer_end'' (PyStr ''2023-10-27T10:00:18+00:00'')]"

text \<open>A completed interval followed by a start that is never matched.\<close>

definition trailing_start_events :: "raw_event list" where
  "trailing_start_events =
     [mk_event ''user_1'' ''session_A'' ''buffer_start'' (PyStr ''2023-10-27T10:00:15Z''),
      mk_event ''user_1'' ''session_A'' ''buffer_end'' (PyStr ''2023-10-27T10:00:18Z''),
      mk_event ''user_1'' ''session_A'' ''buffer_start'' (PyStr ''2023-10-27T10:05:00Z'')]"






text \<open>A naive time of day on 27 October 2023.\<close>

definition sample_time :: "int \<Rightarrow> int \<Rightarrow> int \<Rightarrow> int \<Rightarrow> datetime" where
  "sample_time h mi sec us =
     \<lparr>year = 2023, month = 10, day = 27, hour = h, minute = mi, second = sec,
      microsecond = us, tzinfo = None\<rparr>"

text \<open>An end of a session that has no open start.\<close>

definition orphan_end_event :: raw_event where
  "orphan_end_event =
     mk_event ''user_1'' ''session_A'' ''buffer_end'' (PyStr ''2023-10-27T10:00:18Z'')"

text \<open>The end of \<open>skewed_events\<close>, and the state in which its start is open.\<close>

definition skewed_end_event :: raw_event where
  "skewed_end_event =
     mk_event ''user_1'' ''session_A'' ''buffer_end'' (PyStr ''2023-10-27T10:00:15Z'')"

definition skewed_open_state :: agg_state where
  "skewed_open_state =
     initial_state\<lparr>session_states := [''session_A'' \<mapsto> sample_time 10 0 15 500000]\<rparr>"

text \<open>The mapping expected for the sample events, and the same events grouped by session.\<close>

definition sample_aggregated :: aggregated where
  "sample_aggregated =
     [(''session_A'', \<lparr>total_buffer_duration_seconds = 5, buffer_events_count = 2\<rparr>),
      (''session_B'', \<lparr>total_buffer_duration_seconds = 5, buffer_events_count = 1\<rparr>),
      (''session_C'', \<lparr>total_buffer_duration_seconds = 5, buffer_events_count = 1\<rparr>)]"

definition regrouped_events :: "raw_event list" where
  "regrouped_events =
     [mk_event ''user_2'' ''session_B'' ''buffer_start'' (PyStr ''2023-10-27T10:01:05Z''),
      mk_event ''user_2'' ''session_B'' ''buffer_end'' (PyStr ''2023-10-27T10:01:10Z''),
      mk_event ''user_3'' ''session_C'' ''buffer_start'' (PyStr ''2023-10-27T10:02:30Z''),
      mk_event ''user_3'' ''session_C'' ''buffer_end'' (PyStr ''2023-10-27T10:02:35Z''),
      mk_event ''user_1'' ''session_A'' ''buffer_start'' (PyStr ''2023-10-27T10:00:15Z''),
      mk_event ''user_1'' ''session_A'' ''buffer_end'' (PyStr ''2023-10-27T10:00:18Z''),
      mk_event ''user_1'' ''session_A'' ''buffer_start'' (PyStr ''2023-10-27T10:05:00Z''),
      mk_event ''user_1'' ''session_A'' ''buffer_end'' (PyStr ''2023-10-27T10:05:02Z'')]"

text \<open>The events of \<open>fraction_events\<close> under another user.\<close>

definition renamed_events :: "raw_event list" where
  "renamed_events =
     [mk_event ''user_9'' ''session_A'' ''buffer_start'' (PyStr ''2023-10-27T10:00:15Z''),
      mk_event ''user_8'' ''session_A'' ''buffer_end'' (PyStr ''2023-10-27T10:00:15.500Z'')]"

section \<open>The end-to-end scenario\<close>

lemma sample_aggregate:
  "aggregate_buffering_data fromisoformat fetch_raw_events_from_db = Inr sample_aggregated"
  by code_simp

text \<open>
  C1. On the eight sample events the aggregator returns session A with 5 seconds in 2
  intervals, sessions B and C with 5 seconds in 1 interval each, and the reducer turns that
  mapping into 3 sessions, 15 seconds, 4 events, 5 seconds per session and 3.75 seconds per
  event.
\<close>

theorem sample_end_to_end:
  "aggregate_buffering_data fromisoformat fetch_raw_events_from_db =
     Inr [(''session_A'', \<lparr>total_buffer_duration_seconds = 5, buffer_events_count = 2\<rparr>),
          (''session_B'', \<lparr>total_buffer_duration_seconds = 5, buffer_events_count = 1\<rparr>),
          (''session_C'', \<lparr>total_buffer_duration_seconds = 5, buffer_events_count = 1\<rparr>)]
   \<and> generate_summary_metrics
       [(''session_A'', \<lparr>total_buffer_duration_seconds = 5, buffer_events_count = 2\<rparr>),
        (''session_B'', \<lparr>total_buffer_duration_seconds = 5, buffer_events_count = 1\<rparr>),
        (''session_C'', \<lparr>total_buffer_duration_seconds = 5, buffer_events_count = 1\<rparr>)] =
     Inr \<lparr>total_sessions_with_buffering = 3, total_buffer_time_seconds = 15,
          total_buffer_events = 4, average_buffer_time_per_session_seconds = 5,
          average_buffer_time_per_event_seconds = 3.75\<rparr>"
  using sample_aggregate
  by (simp add: sample_aggregated_def generate_summary_metrics_def py_truediv_def)

section \<open>The summary reducer: totals and averages\<close>

lemma fold_add_sum_list:
  "fold (\<lambda>(sid, metrics) acc. acc + f metrics) agg (a::'a::comm_monoid_add) =
     a + sum_list (map (f \<circ> snd) agg)"
  by (induction agg arbitrary: a) (auto simp: algebra_simps)

text \<open>
  C7. On the empty mapping the reducer returns zero in all five fields. On every mapping
  it returns a record and never a division error: the totals are the sums over the entries,
  and each average is the quotient when its denominator is positive and 0 otherwise.
\<close>

theorem summary_metrics_total:
  "generate_summary_metrics [] =
     Inr \<lparr>total_sessions_with_buffering = 0, total_buffer_time_seconds = 0,
          total_buffer_events = 0, average_buffer_time_per_session_seconds = 0,
          average_buffer_time_per_event_seconds = 0\<rparr>
   \<and> generate_summary_metrics agg =
     Inr \<lparr>total_sessions_with_buffering = int (length agg),
          total_buffer_time_seconds = sum_list (map (total_buffer_duration_seconds \<circ> snd) agg),
          total_buffer_events = sum_list (map (buffer_events_count \<circ> snd) agg),
          average_buffer_time_per_session_seconds =
            (if length agg = 0 then 0
             else sum_list (map (total_buffer_duration_seconds \<circ> snd) agg)
                  / of_nat (length agg)),
          average_buffer_time_per_event_seconds =
            (if 0 < sum_list (map (buffer_events_count \<circ> snd) agg)
             then sum_list (map (total_buffer_duration_seconds \<circ> snd) agg)
                  / of_int (sum_list (map (buffer_events_count \<circ> snd) agg))
             else 0)\<rparr>"
  by (simp add: generate_summary_metrics_def py_truediv_def fold_add_sum_list Let_def)

section \<open>Timestamps of the wrong type\<close>

text \<open>
  A string that does not parse and a \<^verbatim>\<open>bytes\<close> value are skipped: the state keeps its
  aggregates and open starts, and the message is printed.
\<close>

lemma invalid_timestamp_skipped:
  assumes "parse_timestamp fromiso (timestamp ev) = Inl e" and "e = ValueError \<or> e = TypeError"
  shows "process_event fromiso st ev =
     Inr (st\<lparr>printed := printed st @ [InvalidTimestamp (timestamp ev) e]\<rparr>)"
  using assms by (auto simp: process_event_def)

lemma invalid_timestamp_kinds:
  "fromiso (strip_Z s) = None \<Longrightarrow> parse_timestamp fromiso (PyStr s) = Inl ValueError"
  "parse_timestamp fromiso (PyBytes b) = Inl TypeError"
  "parse_timestamp fromiso (PyInt n) = Inl AttributeError"
  "parse_timestamp fromiso PyNone = Inl AttributeError"
  by simp_all

text \<open>
  C2. An event whose timestamp is \<^verbatim>\<open>None\<close> is not skipped: \<^verbatim>\<open>None.strip\<close> raises
  \<^verbatim>\<open>AttributeError\<close>, which the handler for \<^verbatim>\<open>ValueError\<close> and \<^verbatim>\<open>TypeError\<close> lets through,
  and the aggregator returns no mapping.
\<close>

theorem null_timestamp_raises:
  "aggregate_buffering_data fromisoformat null_timestamp_events = Inl AttributeError"
  by code_simp

text \<open>
  The subtraction stands outside the \<^verbatim>\<open>try\<close>: a naive start paired with an aware end
  raises \<^verbatim>\<open>TypeError\<close> too.
\<close>

lemma mixed_zone_raises:
  "aggregate_buffering_data fromisoformat mixed_zone_events = Inl TypeError"
  by code_simp

section \<open>Single steps of the loop\<close>

lemma parse_orphan_end:
  "parse_timestamp fromisoformat (timestamp orphan_end_event) = Inr (sample_time 10 0 18 0)"
  by code_simp

lemma parse_skewed_end:
  "parse_timestamp fromisoformat (timestamp skewed_end_event) = Inr (sample_time 10 0 15 0)"
  by code_simp

lemma sub_skewed:
  "datetime_sub (sample_time 10 0 15 0) (sample_time 10 0 15 500000) = Inr (- 500000)"
  by code_simp

text \<open>
  C6. An end that parses, for a session with no open start, leaves the aggregates and the
  open starts as they were, raises nothing and prints the warning.
\<close>

theorem unmatched_end_no_mutation:
  assumes "parse_timestamp fromiso (timestamp ev) = Inr t"
    and "event_type ev = ''buffer_end''"
    and "session_states st (session_id ev) = None"
  shows "\<exists>st'. process_event fromiso st ev = Inr st'
     \<and> aggregated_data st' = aggregated_data st
     \<and> session_states st' = session_states st
     \<and> printed st' = printed st @ [UnmatchedBufferEnd (session_id ev)]"
  using assms by (simp add: process_event_def)

theorem unmatched_end_no_mutation_witness:
  "parse_timestamp fromisoformat (timestamp orphan_end_event) = Inr (sample_time 10 0 18 0)
   \<and> event_type orphan_end_event = ''buffer_end''
   \<and> session_states initial_state (session_id orphan_end_event) = None
   \<and> (\<exists>st'. process_event fromisoformat initial_state orphan_end_event = Inr st'
        \<and> aggregated_data st' = aggregated_data initial_state
        \<and> session_states st' = session_states initial_state
        \<and> printed st' = printed initial_state @ [UnmatchedBufferEnd ''session_A''])"
proof -
  have k: "event_type orphan_end_event = ''buffer_end''"
    by (simp add: orphan_end_event_def mk_event_def)
  have i: "session_id orphan_end_event = ''session_A''"
    by (simp add: orphan_end_event_def mk_event_def)
  have s: "session_states initial_state (session_id orphan_end_event) = None"
    by (simp add: initial_state_def)
  from unmatched_end_no_mutation [OF parse_orphan_end k s] parse_orphan_end k s i
  show ?thesis by simp
qed

text \<open>
  C8. An end that is paired with an open start later than itself adds the negative
  difference to the session's total as it is, and counts the pair.
\<close>

theorem negative_duration_passes:
  assumes "parse_timestamp fromiso (timestamp ev) = Inr t"
    and "event_type ev = ''buffer_end''"
    and "session_states st (session_id ev) = Some t0"
    and "datetime_sub t t0 = Inr d"
    and "d < 0"
  shows "\<exists>st'. process_event fromiso st ev = Inr st'
     \<and> map_of (aggregated_data st') (session_id ev) =
         Some \<lparr>total_buffer_duration_seconds =
                 total_buffer_duration_seconds (aggregate_of (aggregated_data st) (session_id ev))
                 + total_seconds d,
               buffer_events_count =
                 buffer_events_count (aggregate_of (aggregated_data st) (session_id ev)) + 1\<rparr>
     \<and> total_seconds d < 0"
  using assms by (simp add: process_event_def add_interval_def update_conv' total_seconds_def)

theorem negative_duration_passes_witness:
  "parse_timestamp fromisoformat (timestamp skewed_end_event) = Inr (sample_time 10 0 15 0)
   \<and> event_type skewed_end_event = ''buffer_end''
   \<and> session_states skewed_open_state (session_id skewed_end_event)
       = Some (sample_time 10 0 15 500000)
   \<and> datetime_sub (sample_time 10 0 15 0) (sample_time 10 0 15 500000) = Inr (- 500000)
   \<and> (\<exists>st'. process_event fromisoformat skewed_open_state skewed_end_event = Inr st'
        \<and> map_of (aggregated_data st') ''session_A'' =
            Some \<lparr>total_buffer_duration_seconds = - (1 / 2), buffer_events_count = 1\<rparr>)"
proof -
  have k: "event_type skewed_end_event = ''buffer_end''"
    by (simp add: skewed_end_event_def mk_event_def)
  have i: "session_id skewed_end_event = ''session_A''"
    by (simp add: skewed_end_event_def mk_event_def)
  have s: "session_states skewed_open_state (session_id skewed_end_event)
      = Some (sample_time 10 0 15 500000)"
    by (simp add: skewed_open_state_def i)
  have a: "aggregate_of (aggregated_data skewed_open_state) ''session_A''
      = \<lparr>total_buffer_duration_seconds = 0, buffer_events_count = 0\<rparr>"
    by (simp add: skewed_open_state_def initial_state_def aggregate_of_def)
  have d: "(- 500000 :: int) < 0" by simp
  from negative_duration_passes [OF parse_skewed_end k s sub_skewed d]
    parse_skewed_end k s sub_skewed i a
  show ?thesis by (simp add: total_seconds_def)
qed

text \<open>The same on a whole run: the total of the session is minus half a second.\<close>

lemma skewed_events_result:
  "aggregate_buffering_data fromisoformat skewed_events =
     Inr [(''session_A'', \<lparr>total_buffer_duration_seconds = - (1 / 2), buffer_events_count = 1\<rparr>)]"
  by code_simp

section \<open>The user of an event\<close>

lemma insort_key_map:
  "insort_key f (g x) (map g xs) = map g (insort_key (\<lambda>y. f (g y)) x xs)"
  by (induction xs) auto

lemma sort_key_map:
  "sort_key f (map g xs) = map g (sort_key (\<lambda>y. f (g y)) xs)"
  by (induction xs) (auto simp: insort_key_map)

lemma process_event_anonymous:
  "process_event fromiso st (anonymous x) = process_event fromiso st x"
  by (simp add: process_event_def anonymous_def split: sum.splits option.splits)

lemma process_events_anonymous:
  "process_events fromiso st (map anonymous xs) = process_events fromiso st xs"
  by (induction xs arbitrary: st) (auto simp: process_event_anonymous split: sum.splits)

lemma sorted_events_anonymous:
  "sorted_events (map anonymous xs) = map_sum id (map anonymous) (sorted_events xs)"
  by (simp add: sorted_events_def list_all_iff sort_key_map comp_def anonymous_def)

lemma aggregate_anonymous:
  "aggregate_buffering_data fromiso (map anonymous xs) = aggregate_buffering_data fromiso xs"
  by (cases "sorted_events xs")
     (simp_all add: aggregate_buffering_data_def run_aggregation_def sorted_events_anonymous
        process_events_anonymous)

lemma same_but_user_anonymous:
  "list_all2 same_but_user xs ys \<Longrightarrow> map anonymous xs = map anonymous ys"
  by (induction rule: list_all2_induct) (auto simp: same_but_user_def anonymous_def)

text \<open>
  C10. Two inputs of the same length that agree, event by event, on session, event type
  and timestamp give the same outcome, whatever their users.
\<close>

theorem user_id_irrelevant:
  assumes "list_all2 same_but_user xs ys"
  shows "aggregate_buffering_data fromiso xs = aggregate_buffering_data fromiso ys"
  using aggregate_anonymous [of fromiso xs] aggregate_anonymous [of fromiso ys]
    same_but_user_anonymous [OF assms] by simp

section \<open>The loop, session by session\<close>

lemma session_marks_Nil [simp]: "session_marks fromiso sid [] = []"
  by (simp add: session_marks_def session_events_def map_filter_simps)

lemma session_marks_Cons:
  "session_marks fromiso sid (ev # evs) =
     (if session_id ev = sid
      then (case mark_of fromiso ev of None \<Rightarrow> [] | Some m \<Rightarrow> [m]) else [])
     @ session_marks fromiso sid evs"
  by (simp add: session_marks_def session_events_def map_filter_simps split: option.splits)

lemma pending_mark_simps [simp]:
  "pending_mark None = []" "pending_mark (Some t) = [BufferStart t]"
  by (simp_all add: pending_mark_def)

lemma paired_pending_start:
  "paired_intervals (pending_mark p @ BufferStart t # ms) = paired_intervals (BufferStart t # ms)"
  by (cases p) simp_all

lemma paired_pending_only [simp]: "paired_intervals (pending_mark p) = []"
  by (cases p) simp_all

lemma accumulated_Nil [simp]: "accumulated m [] = m"
  by (simp add: accumulated_def)

lemma accumulated_append:
  "accumulated (accumulated m ds1) ds2 = accumulated m (ds1 @ ds2)"
  by (cases m) (auto simp: accumulated_def)

lemma map_of_add_interval_same:
  "map_of (add_interval sid x agg) sid = accumulated (map_of agg sid) [d]" if "x = total_seconds d"
  using that by (cases "map_of agg sid") (simp_all add: add_interval_def update_conv' aggregate_of_def accumulated_def)

lemma map_of_add_interval_other:
  "k \<noteq> sid \<Longrightarrow> map_of (add_interval k x agg) sid = map_of agg sid"
  by (simp add: add_interval_def update_conv')

text \<open>What one iteration does to the view of a session.\<close>

lemma step_other_session:
  assumes "process_event fromiso st ev = Inr st1" and "session_id ev \<noteq> sid"
  shows "session_states st1 sid = session_states st sid
     \<and> map_of (aggregated_data st1) sid = map_of (aggregated_data st) sid"
  using assms
  by (auto simp: process_event_def map_of_add_interval_other
      split: sum.splits if_splits option.splits)

lemma step_no_mark:
  assumes "process_event fromiso st ev = Inr st1" and "mark_of fromiso ev = None"
  shows "session_states st1 = session_states st \<and> aggregated_data st1 = aggregated_data st"
  using assms
  by (auto simp: process_event_def mark_of_def split: sum.splits if_splits option.splits)

lemma step_start:
  assumes "process_event fromiso st ev = Inr st1" and "mark_of fromiso ev = Some (BufferStart t)"
  shows "session_states st1 = (session_states st)(session_id ev \<mapsto> t)
     \<and> aggregated_data st1 = aggregated_data st"
  using assms
  by (auto simp: process_event_def mark_of_def split: sum.splits if_splits option.splits)

lemma step_end_unmatched:
  assumes "process_event fromiso st ev = Inr st1" and "mark_of fromiso ev = Some (BufferEnd t)"
    and "session_states st (session_id ev) = None"
  shows "session_states st1 = session_states st \<and> aggregated_data st1 = aggregated_data st"
  using assms
  by (auto simp: process_event_def mark_of_def split: sum.splits if_splits option.splits)

lemma step_end_matched:
  assumes "mark_of fromiso ev = Some (BufferEnd t)"
    and "session_states st (session_id ev) = Some t0"
  shows "process_event fromiso st ev =
     (case datetime_sub t t0 of
        Inl e \<Rightarrow> Inl e
      | Inr d \<Rightarrow> Inr (st\<lparr>aggregated_data :=
                         add_interval (session_id ev) (total_seconds d) (aggregated_data st),
                       session_states := (session_states st)(session_id ev := None)\<rparr>))"
  using assms
  by (auto simp: process_event_def mark_of_def split: sum.splits if_splits option.splits)

lemma step_view:
  assumes "process_event fromiso st ev = Inr st1"
  shows "\<exists>new ds.
     (\<forall>ms. paired_intervals (pending_mark (session_states st sid)
                @ session_marks fromiso sid [ev] @ ms)
           = new @ paired_intervals (pending_mark (session_states st1 sid) @ ms))
     \<and> map (\<lambda>(a, b). datetime_sub b a) new = map Inr ds
     \<and> map_of (aggregated_data st1) sid = accumulated (map_of (aggregated_data st) sid) ds"
proof (cases "session_id ev = sid")
  case False
  with step_other_session [OF assms False] show ?thesis
    by (intro exI [of _ "[]"]) (simp add: session_marks_Cons)
next
  case same: True
  show ?thesis
  proof (cases "mark_of fromiso ev")
    case None
    with step_no_mark [OF assms None] same show ?thesis
      by (intro exI [of _ "[]"]) (simp add: session_marks_Cons)
  next
    case (Some m)
    show ?thesis
    proof (cases m)
      case (BufferStart t)
      with step_start [OF assms] Some same show ?thesis
        by (intro exI [of _ "[]"]) (simp add: session_marks_Cons paired_pending_start)
    next
      case (BufferEnd t)
      show ?thesis
      proof (cases "session_states st sid")
        case None
        with step_end_unmatched [OF assms] Some BufferEnd same show ?thesis
          by (intro exI [of _ "[]"]) (simp add: session_marks_Cons)
      next
        case (Some t0)
        from step_end_matched [of fromiso ev t st t0] \<open>mark_of fromiso ev = Some m\<close> BufferEnd Some same assms
        obtain d where d: "datetime_sub t t0 = Inr d"
          and st1: "st1 = st\<lparr>aggregated_data :=
                         add_interval sid (total_seconds d) (aggregated_data st),
                       session_states := (session_states st)(sid := None)\<rparr>"
          by (auto split: sum.splits)
        show ?thesis
          apply (rule exI [of _ "[(t0, t)]"])
          apply (rule exI [of _ "[d]"])
          using d st1 Some same \<open>mark_of fromiso ev = Some m\<close> BufferEnd
          apply (simp add: session_marks_Cons map_of_add_interval_same)
          done
      qed
    qed
  qed
qed

lemma session_marks_append_single:
  "session_marks fromiso sid (ev # evs) = session_marks fromiso sid [ev] @ session_marks fromiso sid evs"
  by (simp add: session_marks_Cons)

lemma loop_view:
  assumes "process_events fromiso st evs = Inr st'"
  shows "\<exists>ds. map (\<lambda>(a, b). datetime_sub b a)
               (paired_intervals (pending_mark (session_states st sid)
                  @ session_marks fromiso sid evs)) = map Inr ds
     \<and> map_of (aggregated_data st') sid = accumulated (map_of (aggregated_data st) sid) ds"
  using assms
proof (induction evs arbitrary: st)
  case Nil
  then show ?case by (intro exI [of _ "[]"]) simp
next
  case (Cons ev evs)
  from Cons.prems obtain st1 where s1: "process_event fromiso st ev = Inr st1"
    and rest: "process_events fromiso st1 evs = Inr st'"
    by (auto split: sum.splits)
  from step_view [OF s1, of sid] obtain new ds1 where
    n: "\<And>ms. paired_intervals (pending_mark (session_states st sid)
                @ session_marks fromiso sid [ev] @ ms)
           = new @ paired_intervals (pending_mark (session_states st1 sid) @ ms)"
    and d1: "map (\<lambda>(a, b). datetime_sub b a) new = map Inr ds1"
    and a1: "map_of (aggregated_data st1) sid = accumulated (map_of (aggregated_data st) sid) ds1"
    by blast
  from Cons.IH [OF rest] obtain ds2 where
    d2: "map (\<lambda>(a, b). datetime_sub b a)
               (paired_intervals (pending_mark (session_states st1 sid)
                  @ session_marks fromiso sid evs)) = map Inr ds2"
    and a2: "map_of (aggregated_data st') sid = accumulated (map_of (aggregated_data st1) sid) ds2"
    by blast
  show ?case
    apply (rule exI [of _ "ds1 @ ds2"])
    apply (subst session_marks_append_single)
    apply (simp add: n d1 d2 a2 a1 accumulated_append)
    done
qed

section \<open>When a run returns\<close>

lemma step_raises:
  assumes "process_event fromiso st ev = Inl e"
  shows "raises_on_parse fromiso ev
     \<or> (\<exists>t t0. mark_of fromiso ev = Some (BufferEnd t)
          \<and> session_states st (session_id ev) = Some t0 \<and> isl (datetime_sub t t0))"
  using assms
  by (auto simp: process_event_def raises_on_parse_def mark_of_def
      split: sum.splits if_splits option.splits)

lemma step_returns:
  assumes "process_event fromiso st ev = Inr st1"
  shows "\<not> raises_on_parse fromiso ev"
  using assms
  by (auto simp: process_event_def raises_on_parse_def split: sum.splits if_splits)

lemma loop_returns:
  assumes "process_events fromiso st evs = Inr st'"
  shows "list_all (\<lambda>x. \<not> raises_on_parse fromiso x) evs"
  using assms
  by (induction evs arbitrary: st) (auto split: sum.splits dest: step_returns)

lemma loop_raises:
  assumes "process_events fromiso st evs = Inl e"
  shows "\<not> list_all (\<lambda>x. \<not> raises_on_parse fromiso x) evs
     \<or> (\<exists>sid. \<not> list_all (\<lambda>(a, b). \<not> isl (datetime_sub b a))
           (paired_intervals (pending_mark (session_states st sid)
              @ session_marks fromiso sid evs)))"
  using assms
proof (induction evs arbitrary: st)
  case Nil
  then show ?case by simp
next
  case (Cons ev evs)
  show ?case
  proof (cases "process_event fromiso st ev")
    case (Inl e')
    from step_raises [OF Inl] show ?thesis
    proof
      assume "raises_on_parse fromiso ev"
      then show ?thesis by simp
    next
      assume "\<exists>t t0. mark_of fromiso ev = Some (BufferEnd t)
          \<and> session_states st (session_id ev) = Some t0 \<and> isl (datetime_sub t t0)"
      then obtain t t0 where "mark_of fromiso ev = Some (BufferEnd t)"
        "session_states st (session_id ev) = Some t0" "isl (datetime_sub t t0)"
        by blast
      then have "\<not> list_all (\<lambda>(a, b). \<not> isl (datetime_sub b a))
           (paired_intervals (pending_mark (session_states st (session_id ev))
              @ session_marks fromiso (session_id ev) (ev # evs)))"
        by (simp add: session_marks_Cons)
      then show ?thesis by blast
    qed
  next
    case (Inr st1)
    with Cons.prems have rest: "process_events fromiso st1 evs = Inl e" by simp
    from Cons.IH [OF rest] show ?thesis
    proof
      assume "\<not> list_all (\<lambda>x. \<not> raises_on_parse fromiso x) evs"
      then show ?thesis by simp
    next
      assume "\<exists>sid. \<not> list_all (\<lambda>(a, b). \<not> isl (datetime_sub b a))
           (paired_intervals (pending_mark (session_states st1 sid)
              @ session_marks fromiso sid evs))"
      then obtain sid where bad: "\<not> list_all (\<lambda>(a, b). \<not> isl (datetime_sub b a))
           (paired_intervals (pending_mark (session_states st1 sid)
              @ session_marks fromiso sid evs))"
        by blast
      from step_view [OF Inr, of sid] obtain new where
        n: "\<And>ms. paired_intervals (pending_mark (session_states st sid)
                @ session_marks fromiso sid [ev] @ ms)
           = new @ paired_intervals (pending_mark (session_states st1 sid) @ ms)"
        by blast
      have "\<not> list_all (\<lambda>(a, b). \<not> isl (datetime_sub b a))
           (paired_intervals (pending_mark (session_states st sid)
              @ session_marks fromiso sid (ev # evs)))"
        using bad by (subst session_marks_append_single) (simp add: n)
      then show ?thesis by blast
    qed
  qed
qed

lemma all_subtracted:
  assumes "map f ps = map Inr ds"
  shows "list_all (\<lambda>p. \<not> isl (f p)) ps"
  using assms by (induction ps arbitrary: ds) auto

lemma runs_iff:
  "(\<exists>st'. process_events fromiso initial_state evs = Inr st') \<longleftrightarrow> runs fromiso evs"
proof
  assume "\<exists>st'. process_events fromiso initial_state evs = Inr st'"
  then obtain st' where r: "process_events fromiso initial_state evs = Inr st'" by blast
  have "list_all (\<lambda>(a, b). \<not> isl (datetime_sub b a))
          (paired_intervals (session_marks fromiso sid evs))" for sid
  proof -
    from loop_view [OF r, of sid] obtain ds where
      "map (\<lambda>(a, b). datetime_sub b a) (paired_intervals (session_marks fromiso sid evs))
         = map Inr ds"
      by (auto simp: initial_state_def)
    from all_subtracted [OF this] show ?thesis by (simp add: case_prod_unfold)
  qed
  with loop_returns [OF r] show "runs fromiso evs" by (simp add: runs_def)
next
  assume ok: "runs fromiso evs"
  show "\<exists>st'. process_events fromiso initial_state evs = Inr st'"
  proof (cases "process_events fromiso initial_state evs")
    case (Inl e)
    from loop_raises [OF Inl] ok show ?thesis
      by (auto simp: runs_def initial_state_def)
  next
    case (Inr st')
    then show ?thesis by blast
  qed
qed

lemma same_sessions_mset:
  assumes "\<forall>sid. session_events sid xs = session_events sid ys"
  shows "mset xs = mset ys"
proof (rule multiset_eqI)
  fix x
  have "count (mset xs) x = count (mset (session_events (session_id x) xs)) x"
    by (simp add: session_events_def)
  also have "\<dots> = count (mset (session_events (session_id x) ys)) x"
    using assms by simp
  also have "\<dots> = count (mset ys) x"
    by (simp add: session_events_def)
  finally show "count (mset xs) x = count (mset ys) x" .
qed

lemma short_mset_eq:
  assumes "mset xs = mset ys" and "length xs < 2"
  shows "xs = ys"
proof (cases xs)
  case Nil
  with assms show ?thesis by simp
next
  case (Cons x xs')
  with assms have "xs' = []" by simp
  with Cons assms show ?thesis by (cases ys) (auto simp: add_mset_eq_single)
qed

lemma session_events_sort:
  "session_events sid (sort_key f xs) = sort_key f (session_events sid xs)"
  by (simp add: session_events_def filter_sort)

lemma sorted_events_sessions:
  assumes same: "\<forall>sid. session_events sid xs = session_events sid ys"
    and sx: "sorted_events xs = Inr sx"
  shows "\<exists>sy. sorted_events ys = Inr sy \<and> set sy = set sx
     \<and> (\<forall>sid. session_events sid sx = session_events sid sy)"
proof -
  have m: "mset xs = mset ys" by (rule same_sessions_mset [OF same])
  then have len: "length xs = length ys" by (rule mset_eq_length)
  from m have st: "set xs = set ys" by (rule mset_eq_setD)
  show ?thesis
  proof (cases "length xs < 2")
    case True
    with m have "xs = ys" by (rule short_mset_eq)
    with sx show ?thesis by simp
  next
    case False
    have la: "list_all P ys = list_all P xs" for P
      using st by (simp add: list_all_iff)
    let ?fs = "\<lambda>x. chars_of (timestamp x)" and ?fi = "\<lambda>x. int_of (timestamp x)"
    from False len sx have
      "(sx = sort_key ?fs xs \<and> sorted_events ys = Inr (sort_key ?fs ys))
       \<or> (sx = sort_key ?fi xs \<and> sorted_events ys = Inr (sort_key ?fi ys))"
      by (simp add: sorted_events_def la split: if_splits)
    then show ?thesis
    proof
      assume "sx = sort_key ?fs xs \<and> sorted_events ys = Inr (sort_key ?fs ys)"
      with st same show ?thesis by (simp add: session_events_sort)
    next
      assume "sx = sort_key ?fi xs \<and> sorted_events ys = Inr (sort_key ?fi ys)"
      with st same show ?thesis by (simp add: session_events_sort)
    qed
  qed
qed

lemma runs_sessions:
  assumes "set sx = set sy" and "\<forall>sid. session_events sid sx = session_events sid sy"
  shows "runs fromiso sx = runs fromiso sy"
  using assms by (simp add: runs_def list_all_iff session_marks_def)

text \<open>
  C9. If two inputs have, for every session, the same sequence of that session's events,
  and the aggregator returns a mapping on the first, then it returns one on the second and
  every session has the same entry in both.
\<close>

theorem interleaving_irrelevant:
  assumes same: "\<forall>sid. session_events sid xs = session_events sid ys"
    and res: "aggregate_buffering_data fromiso xs = Inr a"
  shows "\<exists>b. aggregate_buffering_data fromiso ys = Inr b \<and> map_of b = map_of a"
proof -
  from res obtain sx st where sx: "sorted_events xs = Inr sx"
    and rx: "process_events fromiso initial_state sx = Inr st"
    and a: "a = aggregated_data st"
    by (auto simp: aggregate_buffering_data_def run_aggregation_def split: sum.splits)
  from sorted_events_sessions [OF same sx] obtain sy where sy: "sorted_events ys = Inr sy"
    and sets: "set sy = set sx"
    and same': "\<forall>sid. session_events sid sx = session_events sid sy"
    by blast
  from rx have "runs fromiso sx" using runs_iff [of fromiso sx] by blast
  with runs_sessions [OF sets [symmetric] same'] have "runs fromiso sy" by simp
  then obtain st2 where ry: "process_events fromiso initial_state sy = Inr st2"
    using runs_iff [of fromiso sy] by blast
  have "map_of (aggregated_data st2) sid = map_of (aggregated_data st) sid" for sid
  proof -
    from loop_view [OF rx, of sid] obtain ds where
      d1: "map (\<lambda>(a, b). datetime_sub b a) (paired_intervals (session_marks fromiso sid sx))
         = map Inr ds"
      and a1: "map_of (aggregated_data st) sid = accumulated None ds"
      by (auto simp: initial_state_def)
    from loop_view [OF ry, of sid] obtain ds' where
      d2: "map (\<lambda>(a, b). datetime_sub b a) (paired_intervals (session_marks fromiso sid sy))
         = map Inr ds'"
      and a2: "map_of (aggregated_data st2) sid = accumulated None ds'"
      by (auto simp: initial_state_def)
    from same' have "session_marks fromiso sid sx = session_marks fromiso sid sy"
      by (simp add: session_marks_def)
    with d1 d2 have "map Inr ds = (map Inr ds' :: (py_error + int) list)" by simp
    then have "ds = ds'" by (simp add: inj_map_eq_map)
    with a1 a2 show ?thesis by simp
  qed
  then have "map_of (aggregated_data st2) = map_of a" using a by auto
  with sy ry show ?thesis
    by (simp add: aggregate_buffering_data_def run_aggregation_def)
qed

text \<open>
  C5 (as amended). In the returned mapping the entry of a session is the sum of the
  lengths of its paired intervals and their number, so that events outside a pair add
  nothing, and a session has an entry exactly when it has a paired interval.
\<close>

theorem aggregate_sums_paired_intervals:
  assumes "aggregate_buffering_data fromiso raw_events = Inr res"
  shows "\<exists>evs. sorted_events raw_events = Inr evs
     \<and> (\<forall>sid. \<exists>ds.
          map (\<lambda>(a, b). datetime_sub b a) (paired_intervals (session_marks fromiso sid evs))
            = map Inr ds
          \<and> map_of res sid =
              (if ds = [] then None
               else Some \<lparr>total_buffer_duration_seconds = sum_list (map total_seconds ds),
                          buffer_events_count = int (length ds)\<rparr>))"
proof -
  from assms obtain evs st where sx: "sorted_events raw_events = Inr evs"
    and rx: "process_events fromiso initial_state evs = Inr st"
    and a: "res = aggregated_data st"
    by (auto simp: aggregate_buffering_data_def run_aggregation_def split: sum.splits)
  have "\<exists>ds.
          map (\<lambda>(a, b). datetime_sub b a) (paired_intervals (session_marks fromiso sid evs))
            = map Inr ds
          \<and> map_of res sid =
              (if ds = [] then None
               else Some \<lparr>total_buffer_duration_seconds = sum_list (map total_seconds ds),
                          buffer_events_count = int (length ds)\<rparr>)" for sid
  proof -
    from loop_view [OF rx, of sid] obtain ds where
      d: "map (\<lambda>(a, b). datetime_sub b a) (paired_intervals (session_marks fromiso sid evs))
            = map Inr ds"
      and m: "map_of res sid = accumulated None ds"
      unfolding a initial_state_def by auto
    show ?thesis
      by (rule exI [of _ ds]) (simp add: d m accumulated_def)
  qed
  then have "\<forall>sid. \<exists>ds.
          map (\<lambda>(a, b). datetime_sub b a) (paired_intervals (session_marks fromiso sid evs))
            = map Inr ds
          \<and> map_of res sid =
              (if ds = [] then None
               else Some \<lparr>total_buffer_duration_seconds = sum_list (map total_seconds ds),
                          buffer_events_count = int (length ds)\<rparr>)" ..
  with sx show ?thesis by (intro exI [of _ evs] conjI)
qed

section \<open>The processing order\<close>

lemma sorted_constant_key:
  assumes "\<And>x. x \<in> set xs \<Longrightarrow> f x = c"
  shows "sorted (map f xs)"
  using assms by (induction xs) simp_all

lemma sort_key_stable_field:
  assumes "\<And>x y. g x = g y \<Longrightarrow> f x = f y"
  shows "filter (\<lambda>x. g x = k) (sort_key f xs) = filter (\<lambda>x. g x = k) xs"
proof -
  have c: "sorted (map f (filter (\<lambda>x. g x = k) xs))"
  proof (cases "filter (\<lambda>x. g x = k) xs")
    case Nil
    then show ?thesis by simp
  next
    case (Cons a as)
    then have "a \<in> set (filter (\<lambda>x. g x = k) xs)" by simp
    then have a: "g a = k" by simp
    show ?thesis
    proof (rule sorted_constant_key [where c = "f a"])
      fix x assume "x \<in> set (filter (\<lambda>x. g x = k) xs)"
      then have "g x = g a" using a by simp
      then show "f x = f a" by (rule assms)
    qed
  qed
  have "filter (\<lambda>x. g x = k) (sort_key f xs) = sort_key f (filter (\<lambda>x. g x = k) xs)"
    by (rule filter_sort)
  also have "\<dots> = filter (\<lambda>x. g x = k) xs"
    by (rule sort_key_id_if_sorted [OF c])
  finally show ?thesis .
qed

text \<open>
  C3 (as amended). When every timestamp is a string, the events are processed in the
  order of a stable sort by the raw timestamp string, compared character by character:
  the processed list is a rearrangement of the input, its timestamp strings ascend, and
  events with the same timestamp keep their input order.
\<close>

theorem processing_order_raw_string:
  assumes "list_all (\<lambda>x. is_str (timestamp x)) raw_events"
  shows "\<exists>evs. sorted_events raw_events = Inr evs
     \<and> run_aggregation fromiso raw_events = process_events fromiso initial_state evs
     \<and> mset evs = mset raw_events
     \<and> sorted (map (\<lambda>x. chars_of (timestamp x)) evs)
     \<and> (\<forall>k. filter (\<lambda>x. timestamp x = k) evs = filter (\<lambda>x. timestamp x = k) raw_events)"
proof (cases "length raw_events < 2")
  case True
  have s: "sorted (map (\<lambda>x. chars_of (timestamp x)) raw_events)"
  proof (cases raw_events)
    case Nil
    then show ?thesis by simp
  next
    case (Cons a as)
    with True have "as = []" by simp
    with Cons show ?thesis by simp
  qed
  have se: "sorted_events raw_events = Inr raw_events"
    using True by (simp add: sorted_events_def)
  show ?thesis
    by (rule exI [of _ raw_events]) (simp add: se s run_aggregation_def)
next
  case False
  let ?evs = "sort_key (\<lambda>x. chars_of (timestamp x)) raw_events"
  have st: "filter (\<lambda>x. timestamp x = k) ?evs = filter (\<lambda>x. timestamp x = k) raw_events" for k
    by (rule sort_key_stable_field) simp
  have se: "sorted_events raw_events = Inr ?evs"
    using False assms by (simp add: sorted_events_def)
  have ms: "mset ?evs = mset raw_events" by simp
  have so: "sorted (map (\<lambda>x. chars_of (timestamp x)) ?evs)" by simp
  have ru: "run_aggregation fromiso raw_events = process_events fromiso initial_state ?evs"
    by (simp add: run_aggregation_def se)
  show ?thesis
    using se ru ms so st by (intro exI [of _ ?evs] conjI allI)
qed

theorem processing_order_raw_string_witness:
  "list_all (\<lambda>x. is_str (timestamp x)) fraction_events
   \<and> (\<exists>evs. sorted_events fraction_events = Inr evs
     \<and> run_aggregation fromisoformat fraction_events
         = process_events fromisoformat initial_state evs
     \<and> mset evs = mset fraction_events
     \<and> sorted (map (\<lambda>x. chars_of (timestamp x)) evs)
     \<and> (\<forall>k. filter (\<lambda>x. timestamp x = k) evs = filter (\<lambda>x. timestamp x = k) fraction_events))"
proof -
  have h: "list_all (\<lambda>x. is_str (timestamp x)) fraction_events"
    by (simp add: fraction_events_def mk_event_def)
  from processing_order_raw_string [OF h, of fromisoformat] h show ?thesis
    by (intro conjI)
qed

text \<open>
  The order is not the order of the times the strings denote: the end at 10:00:15.500 is
  processed before the start at 10:00:15, half a second earlier, and the pair is lost.
\<close>

theorem processing_order_not_chronological:
  "sorted_events fraction_events = Inr (rev fraction_events)
   \<and> map (\<lambda>x. parse_timestamp fromisoformat (timestamp x)) (rev fraction_events)
       = [Inr (sample_time 10 0 15 500000), Inr (sample_time 10 0 15 0)]
   \<and> datetime_sub (sample_time 10 0 15 0) (sample_time 10 0 15 500000) = Inr (- 500000)
   \<and> aggregate_buffering_data fromisoformat fraction_events = Inr []"
  by code_simp

section \<open>Two starts in a row\<close>

lemma process_events_append:
  "process_events fromiso st (xs @ ys) =
     (case process_events fromiso st xs of
        Inl e \<Rightarrow> Inl e
      | Inr s \<Rightarrow> process_events fromiso s ys)"
  by (induction xs arbitrary: st) (auto split: sum.splits)

lemma open_start_twice: "open_start sid t2 (open_start sid t1 st) = open_start sid t2 st"
  by (simp add: open_start_def)

lemma step_open_other:
  assumes "session_id x \<noteq> sid"
  shows "process_event fromiso (open_start sid t st) x =
     map_sum id (open_start sid t) (process_event fromiso st x)"
  using assms
  by (auto simp: process_event_def open_start_def fun_upd_twist split: sum.splits option.splits)

lemma loop_open_other:
  assumes "list_all (\<lambda>x. session_id x \<noteq> sid) ys"
  shows "process_events fromiso (open_start sid t st) ys =
     map_sum id (open_start sid t) (process_events fromiso st ys)"
  using assms
proof (induction ys arbitrary: st)
  case Nil
  then show ?case by simp
next
  case (Cons y ys)
  then have y: "session_id y \<noteq> sid" and ys: "list_all (\<lambda>x. session_id x \<noteq> sid) ys"
    by simp_all
  show ?case
  proof (cases "process_event fromiso st y")
    case (Inl e)
    then show ?thesis by (simp add: step_open_other [OF y])
  next
    case (Inr s)
    then show ?thesis by (simp add: step_open_other [OF y] Cons.IH [OF ys])
  qed
qed

lemma step_start_eq:
  assumes "event_type s = ''buffer_start''" and "parse_timestamp fromiso (timestamp s) = Inr t"
  shows "process_event fromiso st s = Inr (open_start (session_id s) t st)"
  using assms by (simp add: process_event_def open_start_def)

lemma first_start_dropped:
  assumes s1: "session_id s1 = sid" "event_type s1 = ''buffer_start''"
      "parse_timestamp fromiso (timestamp s1) = Inr t1"
    and s2: "session_id s2 = sid" "event_type s2 = ''buffer_start''"
      "parse_timestamp fromiso (timestamp s2) = Inr t2"
    and ys: "list_all (\<lambda>x. session_id x \<noteq> sid) ys"
  shows "process_events fromiso st (s1 # ys @ s2 # rest) =
     process_events fromiso st (ys @ s2 # rest)"
proof -
  have p1: "process_event fromiso st s1 = Inr (open_start sid t1 st)"
    using step_start_eq [OF s1(2,3), of st] s1(1) by simp
  have p2: "process_event fromiso u s2 = Inr (open_start sid t2 u)" for u
    using step_start_eq [OF s2(2,3), of u] s2(1) by simp
  show ?thesis
  proof (cases "process_events fromiso st ys")
    case (Inl e)
    then show ?thesis
      by (simp add: p1 process_events_append loop_open_other [OF ys])
  next
    case (Inr u)
    then show ?thesis
      by (simp add: p1 p2 process_events_append loop_open_other [OF ys] open_start_twice)
  qed
qed

lemma session_marks_append:
  "session_marks fromiso sid (xs @ ys) = session_marks fromiso sid xs @ session_marks fromiso sid ys"
  by (induction xs) (simp_all add: session_marks_Cons)

lemma session_marks_other:
  "list_all (\<lambda>x. session_id x \<noteq> sid) ys \<Longrightarrow> session_marks fromiso sid ys = []"
  by (induction ys) (simp_all add: session_marks_Cons)

lemma mark_of_start:
  "event_type s = ''buffer_start'' \<Longrightarrow> parse_timestamp fromiso (timestamp s) = Inr t
     \<Longrightarrow> mark_of fromiso s = Some (BufferStart t)"
  by (simp add: mark_of_def)

lemma mark_of_end:
  "event_type s = ''buffer_end'' \<Longrightarrow> parse_timestamp fromiso (timestamp s) = Inr t
     \<Longrightarrow> mark_of fromiso s = Some (BufferEnd t)"
  by (simp add: mark_of_def)

lemma accumulated_single:
  "accumulated (map_of agg sid) [d] =
     Some \<lparr>total_buffer_duration_seconds =
             total_buffer_duration_seconds (aggregate_of agg sid) + total_seconds d,
           buffer_events_count = buffer_events_count (aggregate_of agg sid) + 1\<rparr>"
  by (cases "map_of agg sid") (simp_all add: accumulated_def aggregate_of_def)

text \<open>
  In processing order: let a start of a session, a second start of it and an end of it be
  processed in this order, with nothing but events of other sessions between them, and let
  the run return. Then the one subtraction made for the session is the end minus the second
  start, and the run without the first start returns the same state.
\<close>

lemma second_processed_start_wins:
  assumes s1: "session_id s1 = sid" "event_type s1 = ''buffer_start''"
      "parse_timestamp fromiso (timestamp s1) = Inr t1"
    and s2: "session_id s2 = sid" "event_type s2 = ''buffer_start''"
      "parse_timestamp fromiso (timestamp s2) = Inr t2"
    and e: "session_id e = sid" "event_type e = ''buffer_end''"
      "parse_timestamp fromiso (timestamp e) = Inr te"
    and ys: "list_all (\<lambda>x. session_id x \<noteq> sid) ys"
    and zs: "list_all (\<lambda>x. session_id x \<noteq> sid) zs"
    and run: "process_events fromiso st (s1 # ys @ s2 # zs @ [e]) = Inr st'"
  shows "\<exists>d. datetime_sub te t2 = Inr d
     \<and> map_of (aggregated_data st') sid =
         Some \<lparr>total_buffer_duration_seconds =
                 total_buffer_duration_seconds (aggregate_of (aggregated_data st) sid)
                 + total_seconds d,
               buffer_events_count =
                 buffer_events_count (aggregate_of (aggregated_data st) sid) + 1\<rparr>
     \<and> process_events fromiso st (ys @ s2 # zs @ [e]) = Inr st'"
proof -
  have m1: "mark_of fromiso s1 = Some (BufferStart t1)" by (rule mark_of_start [OF s1(2,3)])
  have m2: "mark_of fromiso s2 = Some (BufferStart t2)" by (rule mark_of_start [OF s2(2,3)])
  have m3: "mark_of fromiso e = Some (BufferEnd te)" by (rule mark_of_end [OF e(2,3)])
  have marks: "session_marks fromiso sid (s1 # ys @ s2 # zs @ [e]) =
      [BufferStart t1, BufferStart t2, BufferEnd te]"
    by (simp add: session_marks_Cons session_marks_append session_marks_other [OF ys]
        session_marks_other [OF zs] m1 m2 m3 s1(1) s2(1) e(1))
  have pairs: "paired_intervals (pending_mark (session_states st sid)
      @ [BufferStart t1, BufferStart t2, BufferEnd te]) = [(t2, te)]"
    by (simp add: paired_pending_start)
  from loop_view [OF run, of sid] have
    "\<exists>ds. [datetime_sub te t2] = map Inr ds
       \<and> map_of (aggregated_data st') sid = accumulated (map_of (aggregated_data st) sid) ds"
    by (simp add: marks pairs)
  then obtain ds where
    d: "[datetime_sub te t2] = map Inr ds"
    and m: "map_of (aggregated_data st') sid = accumulated (map_of (aggregated_data st) sid) ds"
    by (elim exE conjE)
  from d obtain d0 where ds: "ds = [d0]" and sub: "datetime_sub te t2 = Inr d0"
    by (cases ds) auto
  have drop: "process_events fromiso st (ys @ s2 # zs @ [e]) = Inr st'"
    using first_start_dropped [OF s1 s2 ys, of st "zs @ [e]"] run by simp
  show ?thesis
    by (rule exI [of _ d0]) (simp add: sub m ds accumulated_single drop)
qed

section \<open>The general theorems on the sample inputs\<close>

theorem user_id_irrelevant_witness:
  "list_all2 same_but_user fraction_events renamed_events
   \<and> aggregate_buffering_data fromisoformat fraction_events
       = aggregate_buffering_data fromisoformat renamed_events"
proof -
  have h: "list_all2 same_but_user fraction_events renamed_events"
    by (simp add: fraction_events_def renamed_events_def same_but_user_def mk_event_def)
  from user_id_irrelevant [OF h, of fromisoformat] h show ?thesis by simp
qed

lemma regrouped_sessions:
  "session_events sid fetch_raw_events_from_db = session_events sid regrouped_events"
  by (auto simp: session_events_def fetch_raw_events_from_db_def regrouped_events_def mk_event_def)

theorem interleaving_irrelevant_witness:
  "(\<forall>sid. session_events sid fetch_raw_events_from_db = session_events sid regrouped_events)
   \<and> aggregate_buffering_data fromisoformat fetch_raw_events_from_db = Inr sample_aggregated
   \<and> (\<exists>b. aggregate_buffering_data fromisoformat regrouped_events = Inr b
        \<and> map_of b = map_of sample_aggregated)"
proof -
  have h: "\<forall>sid. session_events sid fetch_raw_events_from_db = session_events sid regrouped_events"
    by (simp add: regrouped_sessions)
  from interleaving_irrelevant [OF h sample_aggregate] h sample_aggregate show ?thesis
    by (intro conjI)
qed

theorem aggregate_sums_paired_intervals_witness:
  "aggregate_buffering_data fromisoformat fetch_raw_events_from_db = Inr sample_aggregated
   \<and> (\<exists>evs. sorted_events fetch_raw_events_from_db = Inr evs
     \<and> (\<forall>sid. \<exists>ds.
          map (\<lambda>(a, b). datetime_sub b a) (paired_intervals (session_marks fromisoformat sid evs))
            = map Inr ds
          \<and> map_of sample_aggregated sid =
              (if ds = [] then None
               else Some \<lparr>total_buffer_duration_seconds = sum_list (map total_seconds ds),
                          buffer_events_count = int (length ds)\<rparr>)))"
  using aggregate_sums_paired_intervals [OF sample_aggregate] sample_aggregate
  by (intro conjI)

text \<open>
  A session whose last start is never matched is still in the result when an earlier
  interval of it was completed.
\<close>

theorem pending_session_present:
  "map_sum id (\<lambda>st. (session_states st ''session_A'', aggregated_data st))
     (run_aggregation fromisoformat trailing_start_events)
   = Inr (Some (sample_time 10 5 0 0),
          [(''session_A'', \<lparr>total_buffer_duration_seconds = 3, buffer_events_count = 1\<rparr>)])"
  by code_simp

section \<open>Two starts in a row, by timestamp string\<close>












































end
